theory Spec2Isabelle
  imports Main "HOL-Library.Word" "HOL-Library.Tree"
begin

unbundle bit_operations_syntax

section \<open>The time-based scheduler of net/sched/sch_tbs.c\<close>

text \<open>
  A shallow embedding of the TBS queueing discipline. The private area
  \<^verbatim>\<open>struct tbs_sched_data\<close> and the fields of \<^verbatim>\<open>struct Qdisc\<close> the file touches are
  one record; every function of the file that takes \<^verbatim>\<open>struct Qdisc *sch\<close> takes the
  record and returns the updated one. A call through a function pointer that is still
  \<^verbatim>\<open>NULL\<close> has no result: the functions that make such calls return an option, and
  \<open>None\<close> is the dereference of the unset pointer.
\<close>

subsection \<open>Timestamps\<close>

type_synonym ktime_t = "64 word"
type_synonym s32 = "32 word"

text \<open>
  Modelled from the spec: \<^verbatim>\<open>ktime_before\<close>, \<^verbatim>\<open>ktime_after\<close> and \<^verbatim>\<open>ktime_sub_ns\<close> are
  macros of include/linux/ktime.h, outside this file. The spec
  reads them as "strictly before", "strictly after" and as the subtraction of a
  duration; \<^verbatim>\<open>ktime_t\<close> is a signed 64-bit count of nanoseconds, so the comparisons are
  signed and the subtraction wraps.
\<close>

definition ktime_before :: "ktime_t \<Rightarrow> ktime_t \<Rightarrow> bool" where
  "ktime_before a b = (a <s b)"

definition ktime_after :: "ktime_t \<Rightarrow> ktime_t \<Rightarrow> bool" where
  "ktime_after a b = (b <s a)"

definition ktime_sub_ns :: "ktime_t \<Rightarrow> s32 \<Rightarrow> ktime_t" where
  "ktime_sub_ns kt nsval = kt - scast nsval"

subsection \<open>Constants declared outside the file\<close>

text \<open>
  Modelled from the spec: the clock identifiers of include/uapi/linux/time.h (wall-clock
  real time, monotonic, boot time, international atomic time) and the bound
  \<^verbatim>\<open>MAX_CLOCKS\<close>, with the values of the Linux ABI.
\<close>

definition CLOCK_REALTIME :: s32 where "CLOCK_REALTIME = 0"
definition CLOCK_MONOTONIC :: s32 where "CLOCK_MONOTONIC = 1"
definition CLOCK_BOOTTIME :: s32 where "CLOCK_BOOTTIME = 7"
definition CLOCK_TAI :: s32 where "CLOCK_TAI = 11"
definition MAX_CLOCKS :: int where "MAX_CLOCKS = 16"

text \<open>
  Modelled from the spec: the flag bits of \<^verbatim>\<open>struct tc_tbs_qopt\<close> and the deadline bit
  of a socket's txtime flags are declared in headers outside this file. The spec has
  one sorting flag and one deadline-versus-windowed flag; each is a single bit here.
\<close>

definition TC_TBS_SORTING_ON :: "32 word" where "TC_TBS_SORTING_ON = 1"
definition TC_TBS_DEADLINE_MODE_ON :: "32 word" where "TC_TBS_DEADLINE_MODE_ON = 2"
definition SK_TXTIME_DEADLINE_MASK :: "8 word" where "SK_TXTIME_DEADLINE_MASK = 1"

subsection \<open>Data\<close>

text \<open>The socket fields \<^verbatim>\<open>is_packet_valid\<close> reads.\<close>

record sock =
  sk_sock_txtime :: bool
  sk_clockid :: s32
  sk_txtime_flags :: "8 word"

text \<open>
  A socket buffer: \<open>skb_id\<close> stands for the address of the buffer (its identity),
  \<open>sk\<close> is \<open>None\<close> for a \<^verbatim>\<open>NULL\<close> socket pointer.
\<close>

record sk_buff =
  skb_id :: nat
  tstamp :: ktime_t
  sk :: "sock option"
  pkt_len :: "32 word"

text \<open>The functions the pointers of \<^verbatim>\<open>struct tbs_sched_data\<close> can hold.\<close>

datatype enqueue_fn = Tbs_enqueue_timesortedlist
datatype dequeue_fn = Tbs_dequeue_timesortedlist
datatype peek_fn = Tbs_peek_timesortedlist
datatype get_time_fn = Ktime_get_real | Ktime_get | Ktime_get_boottime | Ktime_get_clocktai

text \<open>
  The reading of every clock at the moment of a call: what \<^verbatim>\<open>q->get_time()\<close> returns
  there.
\<close>

type_synonym clock = "get_time_fn \<Rightarrow> ktime_t"

text \<open>
  Modelled from the spec: the qdisc watchdog (net/sched/sch_api.c) is the deferred-wake
  facility of the spec, with the calls \<^verbatim>\<open>schedule_wake(at)\<close> and \<^verbatim>\<open>cancel\<close>. The model
  keeps the calls made to it, latest first; \<open>wd_qdisc\<close> says that the watchdog was
  initialised for this qdisc (\<^verbatim>\<open>q->watchdog.qdisc == sch\<close>).
\<close>

datatype wd_call = Wd_schedule_ns "64 word" | Wd_cancel

record qdisc_watchdog =
  wd_qdisc :: bool
  wd_clockid :: s32
  wd_calls :: "wd_call list"

definition qdisc_watchdog_init_clockid :: "qdisc_watchdog \<Rightarrow> s32 \<Rightarrow> qdisc_watchdog" where
  "qdisc_watchdog_init_clockid wd clockid = wd\<lparr>wd_qdisc := True, wd_clockid := clockid\<rparr>"

definition qdisc_watchdog_schedule_ns :: "qdisc_watchdog \<Rightarrow> 64 word \<Rightarrow> qdisc_watchdog" where
  "qdisc_watchdog_schedule_ns wd expires = wd\<lparr>wd_calls := Wd_schedule_ns expires # wd_calls wd\<rparr>"

definition qdisc_watchdog_cancel :: "qdisc_watchdog \<Rightarrow> qdisc_watchdog" where
  "qdisc_watchdog_cancel wd = wd\<lparr>wd_calls := Wd_cancel # wd_calls wd\<rparr>"

text \<open>
  Modelled from the spec (4.4): a new wake replaces the outstanding one, a cancel leaves
  none outstanding.
\<close>

fun outstanding_wake :: "wd_call list \<Rightarrow> 64 word option" where
  "outstanding_wake [] = None"
| "outstanding_wake (Wd_schedule_ns t # cs) = Some t"
| "outstanding_wake (Wd_cancel # cs) = None"

text \<open>
  \<^verbatim>\<open>struct Qdisc\<close> (queue length and the statistics the file updates) together with
  its private \<^verbatim>\<open>struct tbs_sched_data\<close> (the fields \<open>q_...\<close>). \<open>q_head\<close> is the tree
  rooted at \<^verbatim>\<open>q->head\<close>.
\<close>

record Qdisc =
  qlen :: "32 word"
  backlog :: "32 word"
  drops :: "32 word"
  overlimits :: "32 word"
  bstats_bytes :: "64 word"
  bstats_packets :: "32 word"
  q_sorting :: bool
  q_deadline_mode :: bool
  q_clockid :: s32
  q_queue :: int
  q_delta :: s32
  q_last :: ktime_t
  q_head :: "sk_buff tree"
  q_watchdog :: qdisc_watchdog
  q_enqueue :: "enqueue_fn option"
  q_dequeue :: "dequeue_fn option"
  q_peek :: "peek_fn option"
  q_get_time :: "get_time_fn option"

text \<open>
  Modelled from the spec: a new qdisc comes from \<^verbatim>\<open>qdisc_alloc\<close>
  (net/sched/sch_generic.c, outside this file), which hands it out zeroed; the spec has
  the time of the last release start at the zero value.
\<close>

definition qdisc_alloc :: Qdisc where
  "qdisc_alloc =
     \<lparr>qlen = 0, backlog = 0, drops = 0, overlimits = 0, bstats_bytes = 0, bstats_packets = 0,
      q_sorting = False, q_deadline_mode = False, q_clockid = 0, q_queue = 0, q_delta = 0,
      q_last = 0, q_head = Leaf,
      q_watchdog = \<lparr>wd_qdisc = False, wd_clockid = 0, wd_calls = []\<rparr>,
      q_enqueue = None, q_dequeue = None, q_peek = None, q_get_time = None\<rparr>"

subsection \<open>The tree\<close>

text \<open>
  Modelled from the spec: \<^verbatim>\<open>rb_first\<close>, \<^verbatim>\<open>rb_link_node\<close>, \<^verbatim>\<open>rb_insert_color\<close> and
  \<^verbatim>\<open>rb_erase\<close> belong to lib/rbtree.c, outside this file. The store of the spec is
  an ordered structure with peek-minimum and remove; recolouring and rotations keep the
  left-to-right order of the nodes, which is all the scheduler reads, so the tree here is
  the binary search tree without its balance. \<open>rb_first\<close> is the leftmost node.
  Every \<^verbatim>\<open>rb_erase\<close> on the release path is given the node \<^verbatim>\<open>rb_first\<close> just returned,
  so \<open>rb_erase_first\<close> unlinks the leftmost node.
\<close>

fun rb_first :: "'a tree \<Rightarrow> 'a option" where
  "rb_first Leaf = None"
| "rb_first (Node Leaf a r) = Some a"
| "rb_first (Node l a r) = rb_first l"

fun rb_erase_first :: "'a tree \<Rightarrow> 'a tree" where
  "rb_erase_first Leaf = Leaf"
| "rb_erase_first (Node Leaf a r) = r"
| "rb_erase_first (Node l a r) = Node (rb_erase_first l) a r"

text \<open>
  The descent of \<^verbatim>\<open>tbs_enqueue_timesortedlist\<close>: right when the new txtime is strictly
  after the node's, left otherwise; the new node is linked at the empty place reached.
\<close>

fun rb_link :: "sk_buff \<Rightarrow> sk_buff tree \<Rightarrow> sk_buff tree" where
  "rb_link nskb Leaf = Node Leaf nskb Leaf"
| "rb_link nskb (Node l skb r) =
     (if ktime_after (tstamp nskb) (tstamp skb) then Node l skb (rb_link nskb r)
      else Node (rb_link nskb l) skb r)"

subsection \<open>Configuration\<close>

record tc_tbs_qopt =
  qopt_delta :: s32
  qopt_clockid :: s32
  qopt_flags :: "32 word"

datatype errno = EINVAL | ENOTSUPP | Errno int

text \<open>An error return with the message left in the extended ack.\<close>

type_synonym err = "errno \<times> string"

definition SORTING_IS_ON :: "tc_tbs_qopt \<Rightarrow> bool" where
  "SORTING_IS_ON x = (qopt_flags x AND TC_TBS_SORTING_ON \<noteq> 0)"

definition DEADLINE_MODE_IS_ON :: "tc_tbs_qopt \<Rightarrow> bool" where
  "DEADLINE_MODE_IS_ON x = (qopt_flags x AND TC_TBS_DEADLINE_MODE_ON \<noteq> 0)"

definition validate_input_params :: "tc_tbs_qopt \<Rightarrow> err + unit" where
  "validate_input_params qopt =
     (if sint (qopt_clockid qopt) \<ge> MAX_CLOCKS then Inl (EINVAL, ''Invalid clockid'')
      else if sint (qopt_clockid qopt) < 0 then Inl (ENOTSUPP, ''Clockid is not supported'')
      else if sint (qopt_delta qopt) < 0 then Inl (EINVAL, ''Delta must be positive'')
      else Inr ())"

definition setup_queueing_mode :: "Qdisc \<Rightarrow> Qdisc" where
  "setup_queueing_mode q =
     (if q_sorting q then
        q\<lparr>q_enqueue := Some Tbs_enqueue_timesortedlist,
          q_dequeue := Some Tbs_dequeue_timesortedlist,
          q_peek := Some Tbs_peek_timesortedlist\<rparr>
      else q)"

text \<open>
  The netlink attribute handed to \<^verbatim>\<open>tbs_init\<close>, as far as the function looks at it:
  absent, not parseable (with the error of \<^verbatim>\<open>nla_parse_nested\<close>), parsed without the
  parameters, or parsed with them.
\<close>

datatype nlattr = No_opt | Parse_error err | No_parms | Parms tc_tbs_qopt

text \<open>The clock selected by the switch of \<^verbatim>\<open>tbs_init\<close>.\<close>

definition select_clock :: "s32 \<Rightarrow> get_time_fn option" where
  "select_clock clockid =
     (if clockid = CLOCK_REALTIME then Some Ktime_get_real
      else if clockid = CLOCK_MONOTONIC then Some Ktime_get
      else if clockid = CLOCK_BOOTTIME then Some Ktime_get_boottime
      else if clockid = CLOCK_TAI then Some Ktime_get_clocktai
      else None)"

text \<open>
  \<^verbatim>\<open>tbs_init\<close>: the result and the qdisc as the function leaves it, also when it
  returns an error. \<open>txq\<close> is the index of the transmission queue.
\<close>

definition tbs_init :: "nlattr \<Rightarrow> int \<Rightarrow> Qdisc \<Rightarrow> (err + unit) \<times> Qdisc" where
  "tbs_init opt txq sch =
     (case opt of
        No_opt \<Rightarrow> (Inl (EINVAL, ''Missing TBS qdisc options which are mandatory''), sch)
      | Parse_error e \<Rightarrow> (Inl e, sch)
      | No_parms \<Rightarrow> (Inl (EINVAL, ''Missing mandatory TBS parameters''), sch)
      | Parms qopt \<Rightarrow>
         (case validate_input_params qopt of
            Inl e \<Rightarrow> (Inl e, sch)
          | Inr _ \<Rightarrow>
             (let q = sch\<lparr>q_queue := txq\<rparr>;
                  q = q\<lparr>q_delta := qopt_delta qopt\<rparr>;
                  q = q\<lparr>q_clockid := qopt_clockid qopt\<rparr>;
                  q = q\<lparr>q_sorting := SORTING_IS_ON qopt\<rparr>;
                  q = q\<lparr>q_deadline_mode := DEADLINE_MODE_IS_ON qopt\<rparr>
              in case select_clock (q_clockid q) of
                   None \<Rightarrow> (Inl (ENOTSUPP, ''Clockid is not supported''), q)
                 | Some f \<Rightarrow>
                    (let q = q\<lparr>q_get_time := Some f\<rparr>;
                         q = setup_queueing_mode q;
                         q = q\<lparr>q_watchdog := qdisc_watchdog_init_clockid (q_watchdog q) (q_clockid q)\<rparr>
                     in (Inr (), q)))))"

subsection \<open>Admission\<close>

definition is_packet_valid :: "clock \<Rightarrow> Qdisc \<Rightarrow> sk_buff \<Rightarrow> bool option" where
  "is_packet_valid clk sch nskb =
     (let txtime = tstamp nskb in
      case sk nskb of
        None \<Rightarrow> Some False
      | Some s \<Rightarrow>
         if \<not> sk_sock_txtime s then Some False
         else if sk_clockid s \<noteq> q_clockid sch then Some False
         else if (sk_txtime_flags s AND SK_TXTIME_DEADLINE_MASK) \<noteq> of_bool (q_deadline_mode sch)
           then Some False
         else (case q_get_time sch of
                 None \<Rightarrow> None
               | Some get_time \<Rightarrow>
                  (let now = clk get_time in
                   if ktime_before txtime now \<or> ktime_before txtime (q_last sch) then Some False
                   else Some True)))"

definition tbs_peek_timesortedlist :: "Qdisc \<Rightarrow> sk_buff option" where
  "tbs_peek_timesortedlist sch = rb_first (q_head sch)"

definition tbs_peek :: "Qdisc \<Rightarrow> sk_buff option option" where
  "tbs_peek sch =
     (case q_peek sch of
        None \<Rightarrow> None
      | Some Tbs_peek_timesortedlist \<Rightarrow> Some (tbs_peek_timesortedlist sch))"

definition reset_watchdog :: "Qdisc \<Rightarrow> Qdisc option" where
  "reset_watchdog sch =
     (case tbs_peek sch of
        None \<Rightarrow> None
      | Some None \<Rightarrow> Some sch
      | Some (Some skb) \<Rightarrow>
         (let next = ktime_sub_ns (tstamp skb) (q_delta sch)
          in Some (sch\<lparr>q_watchdog := qdisc_watchdog_schedule_ns (q_watchdog sch) next\<rparr>)))"

datatype net_xmit = NET_XMIT_SUCCESS | NET_XMIT_DROP

text \<open>
  Modelled from the spec: the accounting helpers of include/net/sch_generic.h are the
  drop and transmit sinks of the spec. \<^verbatim>\<open>qdisc_drop\<close> counts the drop and reports
  \<^verbatim>\<open>NET_XMIT_DROP\<close>; \<^verbatim>\<open>qdisc_bstats_update\<close> counts one packet of \<open>pkt_len\<close> bytes.
\<close>

definition qdisc_drop :: "sk_buff \<Rightarrow> Qdisc \<Rightarrow> net_xmit \<times> Qdisc" where
  "qdisc_drop skb sch = (NET_XMIT_DROP, sch\<lparr>drops := drops sch + 1\<rparr>)"

definition qdisc_qstats_backlog_inc :: "Qdisc \<Rightarrow> sk_buff \<Rightarrow> Qdisc" where
  "qdisc_qstats_backlog_inc sch skb = sch\<lparr>backlog := backlog sch + pkt_len skb\<rparr>"

definition qdisc_qstats_backlog_dec :: "Qdisc \<Rightarrow> sk_buff \<Rightarrow> Qdisc" where
  "qdisc_qstats_backlog_dec sch skb = sch\<lparr>backlog := backlog sch - pkt_len skb\<rparr>"

definition qdisc_qstats_overlimit :: "Qdisc \<Rightarrow> Qdisc" where
  "qdisc_qstats_overlimit sch = sch\<lparr>overlimits := overlimits sch + 1\<rparr>"

definition qdisc_bstats_update :: "Qdisc \<Rightarrow> sk_buff \<Rightarrow> Qdisc" where
  "qdisc_bstats_update sch skb =
     sch\<lparr>bstats_bytes := bstats_bytes sch + ucast (pkt_len skb),
         bstats_packets := bstats_packets sch + 1\<rparr>"

definition tbs_enqueue_timesortedlist :: "sk_buff \<Rightarrow> Qdisc \<Rightarrow> (net_xmit \<times> Qdisc) option" where
  "tbs_enqueue_timesortedlist nskb sch =
     (let sch = sch\<lparr>q_head := rb_link nskb (q_head sch)\<rparr>;
          sch = qdisc_qstats_backlog_inc sch nskb;
          sch = sch\<lparr>qlen := qlen sch + 1\<rparr>
      in map_option (Pair NET_XMIT_SUCCESS) (reset_watchdog sch))"

definition tbs_enqueue :: "clock \<Rightarrow> sk_buff \<Rightarrow> Qdisc \<Rightarrow> (net_xmit \<times> Qdisc) option" where
  "tbs_enqueue clk nskb sch =
     (case is_packet_valid clk sch nskb of
        None \<Rightarrow> None
      | Some False \<Rightarrow> Some (qdisc_drop nskb sch)
      | Some True \<Rightarrow>
         (case q_enqueue sch of
            None \<Rightarrow> None
          | Some Tbs_enqueue_timesortedlist \<Rightarrow> tbs_enqueue_timesortedlist nskb sch))"

subsection \<open>Release\<close>

text \<open>
  \<^verbatim>\<open>timesortedlist_erase\<close> unlinks the packet, which is the head in every call of the
  file. The link fields \<^verbatim>\<open>next\<close>, \<^verbatim>\<open>prev\<close> and \<^verbatim>\<open>dev\<close> it resets are not part of
  the record \<open>sk_buff\<close>; the time of the last release is written on the path that
  does not drop, from the txtime the packet has at that moment.
\<close>

definition timesortedlist_erase :: "Qdisc \<Rightarrow> sk_buff \<Rightarrow> bool \<Rightarrow> Qdisc" where
  "timesortedlist_erase sch skb is_drop =
     (let sch = sch\<lparr>q_head := rb_erase_first (q_head sch)\<rparr>;
          sch = qdisc_qstats_backlog_dec sch skb;
          sch = (if is_drop then qdisc_qstats_overlimit (snd (qdisc_drop skb sch))
                 else (qdisc_bstats_update sch skb)\<lparr>q_last := tstamp skb\<rparr>)
      in sch\<lparr>qlen := qlen sch - 1\<rparr>)"

definition tbs_dequeue_timesortedlist :: "clock \<Rightarrow> Qdisc \<Rightarrow> (sk_buff option \<times> Qdisc) option" where
  "tbs_dequeue_timesortedlist clk sch =
     (case tbs_peek sch of
        None \<Rightarrow> None
      | Some None \<Rightarrow> Some (None, sch)
      | Some (Some skb) \<Rightarrow>
         (case q_get_time sch of
            None \<Rightarrow> None
          | Some get_time \<Rightarrow>
             (let now = clk get_time in
              if ktime_before (tstamp skb) now then
                map_option (Pair None) (reset_watchdog (timesortedlist_erase sch skb True))
              else if q_deadline_mode sch then
                map_option (Pair (Some (skb\<lparr>tstamp := now\<rparr>)))
                  (reset_watchdog (timesortedlist_erase sch skb False))
              else
                (let next = ktime_sub_ns (tstamp skb) (q_delta sch) in
                 if ktime_after now next then
                   map_option (Pair (Some skb)) (reset_watchdog (timesortedlist_erase sch skb False))
                 else map_option (Pair None) (reset_watchdog sch)))))"

definition tbs_dequeue :: "clock \<Rightarrow> Qdisc \<Rightarrow> (sk_buff option \<times> Qdisc) option" where
  "tbs_dequeue clk sch =
     (case q_dequeue sch of
        None \<Rightarrow> None
      | Some Tbs_dequeue_timesortedlist \<Rightarrow> tbs_dequeue_timesortedlist clk sch)"

subsection \<open>Reset\<close>

text \<open>
  The loop of \<^verbatim>\<open>timesortedlist_clear\<close> walks the nodes from \<^verbatim>\<open>rb_first\<close> along
  \<^verbatim>\<open>rb_next\<close>, that is in their left-to-right order, and unlinks each.
\<close>

fun timesortedlist_clear_loop :: "sk_buff list \<Rightarrow> Qdisc \<Rightarrow> Qdisc" where
  "timesortedlist_clear_loop [] sch = sch"
| "timesortedlist_clear_loop (skb # p) sch =
     timesortedlist_clear_loop p
       (sch\<lparr>q_head := rb_erase_first (q_head sch), qlen := qlen sch - 1\<rparr>)"

definition timesortedlist_clear :: "Qdisc \<Rightarrow> Qdisc" where
  "timesortedlist_clear sch = timesortedlist_clear_loop (inorder (q_head sch)) sch"

definition tbs_reset :: "Qdisc \<Rightarrow> Qdisc" where
  "tbs_reset sch =
     (let sch = (if wd_qdisc (q_watchdog sch)
                 then sch\<lparr>q_watchdog := qdisc_watchdog_cancel (q_watchdog sch)\<rparr> else sch);
          sch = timesortedlist_clear sch;
          sch = sch\<lparr>backlog := 0\<rparr>;
          sch = sch\<lparr>qlen := 0\<rparr>
      in sch\<lparr>q_last := 0\<rparr>)"

subsection \<open>Runs of the scheduler\<close>

text \<open>
  The two operations the framework calls on a configured qdisc, each with the clock
  readings at the moment of the call, and what each returns.
\<close>

datatype op = Admit clock sk_buff | Poll clock

datatype outcome = Admitted net_xmit | Polled "sk_buff option"

fun step :: "op \<Rightarrow> Qdisc \<Rightarrow> (outcome \<times> Qdisc) option" where
  "step (Admit clk nskb) sch = map_option (\<lambda>(r, s). (Admitted r, s)) (tbs_enqueue clk nskb sch)"
| "step (Poll clk) sch = map_option (\<lambda>(r, s). (Polled r, s)) (tbs_dequeue clk sch)"

fun run :: "op list \<Rightarrow> Qdisc \<Rightarrow> (outcome list \<times> Qdisc) option" where
  "run [] sch = Some ([], sch)"
| "run (x # xs) sch =
     (case step x sch of
        None \<Rightarrow> None
      | Some (r, s) \<Rightarrow>
         (case run xs s of None \<Rightarrow> None | Some (rs, s') \<Rightarrow> Some (r # rs, s')))"

text \<open>The packets a run handed to the device, in the order of their release.\<close>

fun released :: "outcome list \<Rightarrow> sk_buff list" where
  "released [] = []"
| "released (Polled (Some skb) # os) = skb # released os"
| "released (_ # os) = released os"

subsection \<open>Properties of a state\<close>

text \<open>The three operations are dispatched to the time-sorted list.\<close>

definition sorted_mode :: "Qdisc \<Rightarrow> bool" where
  "sorted_mode sch \<longleftrightarrow>
     q_enqueue sch = Some Tbs_enqueue_timesortedlist \<and>
     q_dequeue sch = Some Tbs_dequeue_timesortedlist \<and>
     q_peek sch = Some Tbs_peek_timesortedlist"

text \<open>The packets held, from the leftmost node of the tree to the rightmost.\<close>

definition store :: "Qdisc \<Rightarrow> sk_buff list" where
  "store sch = inorder (q_head sch)"

definition time_sorted :: "sk_buff list \<Rightarrow> bool" where
  "time_sorted xs = sorted (map (\<lambda>x. sint (tstamp x)) xs)"

text \<open>
  The tree is a search tree on the txtime, and no packet held has a txtime before that
  of the last packet released.
\<close>

definition tbs_inv :: "Qdisc \<Rightarrow> bool" where
  "tbs_inv sch \<longleftrightarrow>
     time_sorted (store sch) \<and> (\<forall>x \<in> set (store sch). sint (q_last sch) \<le> sint (tstamp x))"


text \<open>
  In a list, some occurrence of \<open>x\<close> stands before some occurrence of \<open>y\<close>.
\<close>

fun occurs_before :: "'a \<Rightarrow> 'a \<Rightarrow> 'a list \<Rightarrow> bool" where
  "occurs_before x y [] = False"
| "occurs_before x y (z # zs) = ((z = x \<and> y \<in> set zs) \<or> occurs_before x y zs)"

text \<open>The packets a list of operations hands to the admission, in order.\<close>

fun admitted :: "op list \<Rightarrow> sk_buff list" where
  "admitted [] = []"
| "admitted (Admit clk p # ops) = p # admitted ops"
| "admitted (Poll clk # ops) = admitted ops"

subsection \<open>Sample inputs\<close>

definition clock_at :: "ktime_t \<Rightarrow> clock" where
  "clock_at t = (\<lambda>_. t)"

definition txtime_sock :: "bool \<Rightarrow> sock" where
  "txtime_sock deadline =
     \<lparr>sk_sock_txtime = True, sk_clockid = CLOCK_MONOTONIC,
      sk_txtime_flags = (if deadline then SK_TXTIME_DEADLINE_MASK else 0)\<rparr>"

definition packet :: "nat \<Rightarrow> ktime_t \<Rightarrow> bool \<Rightarrow> sk_buff" where
  "packet i t deadline = \<lparr>skb_id = i, tstamp = t, sk = Some (txtime_sock deadline), pkt_len = 64\<rparr>"

definition qopt_windowed :: tc_tbs_qopt where
  "qopt_windowed =
     \<lparr>qopt_delta = 10, qopt_clockid = CLOCK_MONOTONIC, qopt_flags = TC_TBS_SORTING_ON\<rparr>"

definition qopt_deadline :: tc_tbs_qopt where
  "qopt_deadline =
     \<lparr>qopt_delta = 10, qopt_clockid = CLOCK_MONOTONIC,
      qopt_flags = TC_TBS_SORTING_ON OR TC_TBS_DEADLINE_MODE_ON\<rparr>"

definition qopt_unsorted :: tc_tbs_qopt where
  "qopt_unsorted = \<lparr>qopt_delta = 10, qopt_clockid = CLOCK_MONOTONIC, qopt_flags = 0\<rparr>"

text \<open>Clock 2 is below \<^verbatim>\<open>MAX_CLOCKS\<close> and is none of the four clocks of the switch.\<close>

definition qopt_cputime :: tc_tbs_qopt where
  "qopt_cputime =
     \<lparr>qopt_delta = 5, qopt_clockid = 2,
      qopt_flags = TC_TBS_SORTING_ON OR TC_TBS_DEADLINE_MODE_ON\<rparr>"

text \<open>A new qdisc after \<^verbatim>\<open>tbs_init\<close> with the given parameters.\<close>

definition configured :: "tc_tbs_qopt \<Rightarrow> Qdisc" where
  "configured qopt = snd (tbs_init (Parms qopt) 0 qdisc_alloc)"

text \<open>
  The state a run leaves behind (the starting state, should the run have no result).
\<close>

definition after :: "op list \<Rightarrow> Qdisc \<Rightarrow> Qdisc" where
  "after ops sch = (case run ops sch of None \<Rightarrow> sch | Some (_, s) \<Rightarrow> s)"

text \<open>
  One packet due at 100, admitted at time 0: by a deadline-mode qdisc and by a windowed
  one, both with a delta of 10.
\<close>

definition deadline_queued :: Qdisc where
  "deadline_queued = after [Admit (clock_at 0) (packet 1 100 True)] (configured qopt_deadline)"

definition windowed_queued :: Qdisc where
  "windowed_queued = after [Admit (clock_at 0) (packet 1 100 False)] (configured qopt_windowed)"

text \<open>
  Two packets due at 100 and 200, admitted at time 0 by the windowed qdisc, and the
  first of them released by a poll at 95.
\<close>

definition two_admitted_one_released :: Qdisc where
  "two_admitted_one_released =
     after [Admit (clock_at 0) (packet 1 100 False), Admit (clock_at 0) (packet 2 200 False),
            Poll (clock_at 95)] (configured qopt_windowed)"

text \<open>
  Two packets due at 100 on the windowed qdisc: packet 1 is admitted at time 0 and held
  by a poll at 50, then packet 2 is admitted at 60.
\<close>

definition tie_first_held :: Qdisc where
  "tie_first_held =
     after [Admit (clock_at 0) (packet 1 100 False), Poll (clock_at 50)]
       (configured qopt_windowed)"

definition tie_both_held :: Qdisc where
  "tie_both_held = after [Admit (clock_at 60) (packet 2 100 False)] tie_first_held"

section \<open>The tree keeps the packets in txtime order\<close>

lemma rb_first_inorder: "rb_first t = (case inorder t of [] \<Rightarrow> None | x # _ \<Rightarrow> Some x)"
proof (induction t rule: rb_first.induct)
  case (3 v va vb a r)
  then show ?case by (cases "inorder v") simp_all
qed simp_all

lemma inorder_rb_erase_first: "inorder (rb_erase_first t) = tl (inorder t)"
  by (induction t rule: rb_erase_first.induct) (auto simp: tl_append split: list.splits)

lemma time_sorted_append:
  "time_sorted (xs @ ys) \<longleftrightarrow>
     time_sorted xs \<and> time_sorted ys \<and>
     (\<forall>x \<in> set xs. \<forall>y \<in> set ys. sint (tstamp x) \<le> sint (tstamp y))"
  by (auto simp: time_sorted_def sorted_append)

lemma time_sorted_Cons:
  "time_sorted (x # ys) \<longleftrightarrow>
     time_sorted ys \<and> (\<forall>y \<in> set ys. sint (tstamp x) \<le> sint (tstamp y))"
  by (auto simp: time_sorted_def)

text \<open>
  In a search tree the descent puts the new packet behind the packets with an earlier
  txtime and in front of all others, those with the same txtime included. Its place
  among the packets held does not depend on the shape of the tree.
\<close>

lemma inorder_rb_link:
  "time_sorted (inorder t) \<Longrightarrow>
   inorder (rb_link x t) =
     filter (\<lambda>y. sint (tstamp y) < sint (tstamp x)) (inorder t) @ x #
     filter (\<lambda>y. sint (tstamp x) \<le> sint (tstamp y)) (inorder t)"
proof (induction t)
  case Leaf
  then show ?case by simp
next
  case (Node l a r)
  from Node.prems have sl: "time_sorted (inorder l)" and sr: "time_sorted (inorder r)"
    and la: "\<forall>y \<in> set (inorder l). sint (tstamp y) \<le> sint (tstamp a)"
    and ar: "\<forall>y \<in> set (inorder r). sint (tstamp a) \<le> sint (tstamp y)"
    by (auto simp: time_sorted_append time_sorted_Cons)
  show ?case
  proof (cases "ktime_after (tstamp x) (tstamp a)")
    case True
    then have lt: "sint (tstamp a) < sint (tstamp x)"
      by (simp add: ktime_after_def word_sless_alt)
    with la have "\<forall>y \<in> set (inorder l). sint (tstamp y) < sint (tstamp x)"
      by fastforce
    then have "filter (\<lambda>y. sint (tstamp y) < sint (tstamp x)) (inorder l) = inorder l"
      and "filter (\<lambda>y. sint (tstamp x) \<le> sint (tstamp y)) (inorder l) = []"
      by (auto simp: filter_empty_conv intro!: filter_True)
    with True lt Node.IH(2)[OF sr] show ?thesis by simp
  next
    case False
    then have le: "sint (tstamp x) \<le> sint (tstamp a)"
      by (simp add: ktime_after_def word_sless_alt)
    with ar have "\<forall>y \<in> set (inorder r). sint (tstamp x) \<le> sint (tstamp y)"
      by fastforce
    then have "filter (\<lambda>y. sint (tstamp x) \<le> sint (tstamp y)) (inorder r) = inorder r"
      and "filter (\<lambda>y. sint (tstamp y) < sint (tstamp x)) (inorder r) = []"
      by (auto simp: filter_empty_conv intro!: filter_True)
    with False le Node.IH(1)[OF sl] show ?thesis by simp
  qed
qed

lemma time_sorted_rb_link:
  assumes "time_sorted (inorder t)"
  shows "time_sorted (inorder (rb_link x t))"
proof -
  have "time_sorted (filter P (inorder t))" for P
    using assms by (simp add: time_sorted_def sorted_filter)
  then show ?thesis
    by (auto simp: inorder_rb_link[OF assms] time_sorted_append time_sorted_Cons)
qed

section \<open>What the helpers leave alone\<close>

lemma reset_watchdog_sorted:
  "q_peek sch = Some Tbs_peek_timesortedlist \<Longrightarrow>
   reset_watchdog sch =
     Some (case rb_first (q_head sch) of
             None \<Rightarrow> sch
           | Some skb \<Rightarrow>
               sch\<lparr>q_watchdog := qdisc_watchdog_schedule_ns (q_watchdog sch)
                      (ktime_sub_ns (tstamp skb) (q_delta sch))\<rparr>)"
  by (simp add: reset_watchdog_def tbs_peek_def tbs_peek_timesortedlist_def split: option.splits)

lemma timesortedlist_erase_frame:
  "q_head (timesortedlist_erase sch skb d) = rb_erase_first (q_head sch)"
  "q_last (timesortedlist_erase sch skb d) = (if d then q_last sch else tstamp skb)"
  "q_watchdog (timesortedlist_erase sch skb d) = q_watchdog sch"
  "q_delta (timesortedlist_erase sch skb d) = q_delta sch"
  "q_deadline_mode (timesortedlist_erase sch skb d) = q_deadline_mode sch"
  "q_get_time (timesortedlist_erase sch skb d) = q_get_time sch"
  "q_enqueue (timesortedlist_erase sch skb d) = q_enqueue sch"
  "q_dequeue (timesortedlist_erase sch skb d) = q_dequeue sch"
  "q_peek (timesortedlist_erase sch skb d) = q_peek sch"
  by (simp_all add: timesortedlist_erase_def qdisc_qstats_backlog_dec_def Let_def
      qdisc_qstats_overlimit_def qdisc_drop_def qdisc_bstats_update_def)

lemma tbs_peek_SomeD:
  "tbs_peek sch = Some r \<Longrightarrow> q_peek sch = Some Tbs_peek_timesortedlist \<and> r = rb_first (q_head sch)"
  by (auto simp: tbs_peek_def tbs_peek_timesortedlist_def split: option.splits peek_fn.splits)

section \<open>Release in deadline mode\<close>

text \<open>
  C7. In deadline mode every poll that returns a packet returns it with its txtime set
  to the clock reading of that poll, not to the deadline it was admitted with.
\<close>

theorem deadline_release_stamped_now:
  assumes "q_deadline_mode sch" and "q_get_time sch = Some f"
    and "tbs_dequeue clk sch = Some (Some skb, sch')"
  shows "tstamp skb = clk f"
  using assms
  by (auto simp: tbs_dequeue_def tbs_dequeue_timesortedlist_def Let_def
      split: option.splits dequeue_fn.splits if_splits)

theorem deadline_release_stamped_now_witness:
  "q_deadline_mode deadline_queued \<and> q_get_time deadline_queued = Some Ktime_get \<and>
   tbs_dequeue (clock_at 50) deadline_queued =
     Some (Some (packet 1 50 True), after [Poll (clock_at 50)] deadline_queued) \<and>
   tstamp (packet 1 50 True) = clock_at 50 Ktime_get"
proof -
  have h1: "q_deadline_mode deadline_queued" by code_simp
  have h2: "q_get_time deadline_queued = Some Ktime_get" by code_simp
  have h3: "tbs_dequeue (clock_at 50) deadline_queued =
     Some (Some (packet 1 50 True), after [Poll (clock_at 50)] deadline_queued)" by code_simp
  from deadline_release_stamped_now [where clk = "clock_at 50" and f = Ktime_get, OF h1 h2 h3]
    h1 h2 h3
  show ?thesis by simp
qed

text \<open>
  What the code does in deadline mode with a head that is not expired: the packet is
  returned stamped with the clock reading, and the time of the last release becomes the
  deadline the packet was admitted with, since \<^verbatim>\<open>timesortedlist_erase\<close> copies the
  txtime before \<^verbatim>\<open>tbs_dequeue_timesortedlist\<close> overwrites it.
\<close>

lemma deadline_release_sets_last_to_deadline:
  assumes "q_dequeue sch = Some Tbs_dequeue_timesortedlist"
    and "tbs_peek sch = Some (Some skb)"
    and "q_get_time sch = Some f"
    and "q_deadline_mode sch"
    and "\<not> ktime_before (tstamp skb) (clk f)"
  shows "\<exists>sch'. tbs_dequeue clk sch = Some (Some (skb\<lparr>tstamp := clk f\<rparr>), sch') \<and>
           q_last sch' = tstamp skb \<and> store sch' = tl (store sch)"
proof -
  from assms(2) have pk: "q_peek sch = Some Tbs_peek_timesortedlist"
    by (simp add: tbs_peek_SomeD)
  with assms show ?thesis
    by (auto simp: tbs_dequeue_def tbs_dequeue_timesortedlist_def Let_def reset_watchdog_sorted
        timesortedlist_erase_frame store_def inorder_rb_erase_first split: option.splits)
qed

text \<open>
  C1. The claim has the time of the last release set to the clock reading of the poll,
  and the comment on the field (\<^verbatim>\<open>last\<close>, "the txtime of the last skb sent to the
  netdevice") says the same, the packet being sent with the clock reading as its
  txtime. The code writes the field before it restamps the packet: the packet due at
  100 is released by a poll at 50 with the txtime 50, and the time of the last release
  is then 100, not 50.
\<close>

theorem deadline_release_last_is_not_now:
  "q_deadline_mode deadline_queued \<and>
   tbs_peek deadline_queued = Some (Some (packet 1 100 True)) \<and>
   \<not> ktime_before (tstamp (packet 1 100 True)) (clock_at 50 Ktime_get) \<and>
   map_option (\<lambda>(r, s). (r, q_last s)) (tbs_dequeue (clock_at 50) deadline_queued) =
     Some (Some (packet 1 50 True), 100) \<and>
   (100 :: ktime_t) \<noteq> clock_at 50 Ktime_get"
  by code_simp

section \<open>Release in windowed mode\<close>


text \<open>
  Once the clock is strictly after the opening of the window the head is released, and
  the time of the last release is the txtime of the packet.
\<close>

lemma windowed_release_after_window_open:
  assumes "q_dequeue sch = Some Tbs_dequeue_timesortedlist"
    and "tbs_peek sch = Some (Some skb)"
    and "q_get_time sch = Some f"
    and "\<not> q_deadline_mode sch"
    and "\<not> ktime_before (tstamp skb) (clk f)"
    and "ktime_after (clk f) (ktime_sub_ns (tstamp skb) (q_delta sch))"
  shows "\<exists>sch'. tbs_dequeue clk sch = Some (Some skb, sch') \<and>
           q_last sch' = tstamp skb \<and> store sch' = tl (store sch)"
proof -
  from assms(2) have pk: "q_peek sch = Some Tbs_peek_timesortedlist"
    by (simp add: tbs_peek_SomeD)
  with assms show ?thesis
    by (auto simp: tbs_dequeue_def tbs_dequeue_timesortedlist_def Let_def reset_watchdog_sorted
        timesortedlist_erase_frame store_def inorder_rb_erase_first split: option.splits)
qed

text \<open>
  C3. The claim has the head released from the opening of the window on, the opening
  included, as the comment of the code has it ("within the [txtime - delta, txtime]
  range"). The code tests \<^verbatim>\<open>ktime_after(now, next)\<close>: with a delta of 10, the packet
  due at 100 polled at exactly 90 is not released. It stays in the store and the time
  of the last release stays 0.
\<close>

theorem window_boundary_not_released:
  "\<not> q_deadline_mode windowed_queued \<and>
   tbs_peek windowed_queued = Some (Some (packet 1 100 False)) \<and>
   \<not> ktime_before (tstamp (packet 1 100 False)) (clock_at 90 Ktime_get) \<and>
   ktime_sub_ns (tstamp (packet 1 100 False)) (q_delta windowed_queued) = clock_at 90 Ktime_get \<and>
   map_option (\<lambda>(r, s). (r, store s, q_last s)) (tbs_dequeue (clock_at 90) windowed_queued) =
     Some (None, [packet 1 100 False], 0)"
  by code_simp


section \<open>The timer when the store runs empty\<close>

lemma timesortedlist_clear_loop_frame:
  "q_watchdog (timesortedlist_clear_loop p sch) = q_watchdog sch"
  by (induction p arbitrary: sch) simp_all

lemma size_rb_erase_first: "size (rb_erase_first t) = size t - 1"
  by (simp add: inorder_rb_erase_first flip: length_inorder)

lemma timesortedlist_clear_loop_empties:
  "length p = size (q_head sch) \<Longrightarrow> q_head (timesortedlist_clear_loop p sch) = Leaf"
  by (induction p arbitrary: sch) (simp_all add: size_rb_erase_first)

lemma store_tbs_reset: "store (tbs_reset sch) = []"
  by (simp add: tbs_reset_def store_def Let_def timesortedlist_clear_def
      timesortedlist_clear_loop_empties)

lemma wake_tbs_reset:
  "wd_qdisc (q_watchdog sch) \<Longrightarrow>
   outstanding_wake (wd_calls (q_watchdog (tbs_reset sch))) = None"
  by (simp add: tbs_reset_def Let_def timesortedlist_clear_def timesortedlist_clear_loop_frame
      qdisc_watchdog_cancel_def)

lemma reset_watchdog_empty:
  assumes "reset_watchdog x = Some sch'" and "store sch' = []"
  shows "sch' = x"
  using assms
  by (auto simp: reset_watchdog_def store_def tbs_peek_def tbs_peek_timesortedlist_def Let_def
      split: option.splits peek_fn.splits)

text \<open>
  C5, as the code has it. A poll that leaves the store empty does not reschedule the
  timer and does not cancel it either: \<^verbatim>\<open>reset_watchdog\<close> returns at once when there
  is no head, so the watchdog is as it was before the poll, a wake scheduled earlier
  included. The operation that empties the store and cancels the timer is the reset,
  for a watchdog that has been initialised.
\<close>

theorem poll_emptying_store_keeps_timer:
  assumes "tbs_dequeue clk sch = Some (r, sch')" and "store sch' = []"
  shows "q_watchdog sch' = q_watchdog sch \<and> store (tbs_reset s) = [] \<and>
         (wd_qdisc (q_watchdog s) \<longrightarrow>
            outstanding_wake (wd_calls (q_watchdog (tbs_reset s))) = None)"
proof -
  from assms have "q_watchdog sch' = q_watchdog sch"
    by (auto simp: tbs_dequeue_def tbs_dequeue_timesortedlist_def Let_def
        timesortedlist_erase_frame
        split: option.splits dequeue_fn.splits if_splits dest!: reset_watchdog_empty)
  then show ?thesis by (simp add: store_tbs_reset wake_tbs_reset)
qed

theorem poll_emptying_store_keeps_timer_witness:
  "tbs_dequeue (clock_at 50) deadline_queued =
     Some (Some (packet 1 50 True), after [Poll (clock_at 50)] deadline_queued) \<and>
   store (after [Poll (clock_at 50)] deadline_queued) = [] \<and>
   q_watchdog (after [Poll (clock_at 50)] deadline_queued) = q_watchdog deadline_queued \<and>
   store (tbs_reset deadline_queued) = [] \<and>
   wd_qdisc (q_watchdog deadline_queued) \<and>
   outstanding_wake (wd_calls (q_watchdog (tbs_reset deadline_queued))) = None"
proof -
  have h1: "tbs_dequeue (clock_at 50) deadline_queued =
     Some (Some (packet 1 50 True), after [Poll (clock_at 50)] deadline_queued)" by code_simp
  have h2: "store (after [Poll (clock_at 50)] deadline_queued) = []" by code_simp
  have h3: "wd_qdisc (q_watchdog deadline_queued)" by code_simp
  from poll_emptying_store_keeps_timer [OF h1 h2, of deadline_queued] h1 h2 h3
  show ?thesis by blast
qed

text \<open>
  C5 as the spec states it fails: the packet due at 100 was admitted at 0, which
  scheduled a wake at 90; the poll at 50 releases it and empties the store, and the
  wake at 90 is still outstanding.
\<close>

theorem poll_emptying_store_leaves_wake:
  "wd_calls (q_watchdog deadline_queued) = [Wd_schedule_ns 90] \<and>
   map_option (\<lambda>(r, s). (r, store s, outstanding_wake (wd_calls (q_watchdog s))))
       (tbs_dequeue (clock_at 50) deadline_queued) =
     Some (Some (packet 1 50 True), [], Some 90)"
  by code_simp

section \<open>Configuration errors\<close>

text \<open>An error of the validation is returned before anything is written.\<close>

lemma tbs_init_validation_error:
  "validate_input_params qopt = Inl e \<Longrightarrow> tbs_init (Parms qopt) txq sch = (Inl e, sch)"
  by (simp add: tbs_init_def)

text \<open>
  C6. The claim has no field written when the configuration fails, and the code's own
  comment saves the parameters once "everything went OK". But a clock below
  \<^verbatim>\<open>MAX_CLOCKS\<close> that is none of the four of the switch passes the validation and is
  refused after the parameters were saved: for clock 2 the new qdisc is left with the
  queue, delta, clock, sorting flag and deadline flag of the refused request.
\<close>

theorem init_unsupported_clock_after_saving:
  "validate_input_params qopt_cputime = Inr () \<and>
   select_clock (qopt_clockid qopt_cputime) = None \<and>
   tbs_init (Parms qopt_cputime) 3 qdisc_alloc =
     (Inl (ENOTSUPP, ''Clockid is not supported''),
      qdisc_alloc\<lparr>q_queue := 3, q_delta := 5, q_clockid := 2, q_sorting := True,
                    q_deadline_mode := True\<rparr>) \<and>
   q_delta qdisc_alloc = 0 \<and> q_clockid qdisc_alloc = 0 \<and> \<not> q_sorting qdisc_alloc \<and>
   \<not> q_deadline_mode qdisc_alloc \<and> q_queue qdisc_alloc = 0"
  by code_simp

section \<open>Admission\<close>

lemma set_tree_rb_link: "set_tree (rb_link x t) = insert x (set_tree t)"
  by (induction t) auto

text \<open>
  C8, as the code has it. A packet that passes the socket, clock and mode checks is
  dropped exactly when its txtime is strictly before the clock reading or strictly
  before the time of the last release; otherwise it is accepted and joins the store.
  A txtime equal to the clock reading passes that check, and the packet is then accepted
  exactly when its txtime is not before the time of the last release; a txtime equal to
  the time of the last release passes that check, and the packet is then accepted
  exactly when its txtime is not before the clock reading.
\<close>

theorem admit_temporal_checks:
  assumes "sorted_mode sch" and "q_get_time sch = Some f"
    and "sk nskb = Some s" and "sk_sock_txtime s" and "sk_clockid s = q_clockid sch"
    and "sk_txtime_flags s AND SK_TXTIME_DEADLINE_MASK = of_bool (q_deadline_mode sch)"
  shows "map_option fst (tbs_enqueue clk nskb sch) =
           Some (if ktime_before (tstamp nskb) (clk f) \<or> ktime_before (tstamp nskb) (q_last sch)
                 then NET_XMIT_DROP else NET_XMIT_SUCCESS) \<and>
         (ktime_before (tstamp nskb) (clk f) \<or> ktime_before (tstamp nskb) (q_last sch) \<longrightarrow>
           tbs_enqueue clk nskb sch = Some (NET_XMIT_DROP, sch\<lparr>drops := drops sch + 1\<rparr>)) \<and>
         (\<not> (ktime_before (tstamp nskb) (clk f) \<or> ktime_before (tstamp nskb) (q_last sch)) \<longrightarrow>
           (\<exists>sch'. tbs_enqueue clk nskb sch = Some (NET_XMIT_SUCCESS, sch') \<and>
                  set (store sch') = insert nskb (set (store sch)))) \<and>
         (tstamp nskb = clk f \<longrightarrow>
           map_option fst (tbs_enqueue clk nskb sch) =
             Some (if ktime_before (tstamp nskb) (q_last sch)
                   then NET_XMIT_DROP else NET_XMIT_SUCCESS)) \<and>
         (tstamp nskb = q_last sch \<longrightarrow>
           map_option fst (tbs_enqueue clk nskb sch) =
             Some (if ktime_before (tstamp nskb) (clk f)
                   then NET_XMIT_DROP else NET_XMIT_SUCCESS))"
proof -
  from assms(1) have d: "q_enqueue sch = Some Tbs_enqueue_timesortedlist"
    "q_peek sch = Some Tbs_peek_timesortedlist"
    by (simp_all add: sorted_mode_def)
  let ?late = "ktime_before (tstamp nskb) (clk f) \<or> ktime_before (tstamp nskb) (q_last sch)"
  from assms have v: "is_packet_valid clk sch nskb = Some (\<not> ?late)"
    by (simp add: is_packet_valid_def Let_def)
  have 2: "tbs_enqueue clk nskb sch = Some (NET_XMIT_DROP, sch\<lparr>drops := drops sch + 1\<rparr>)"
    if "?late"
    using v that by (simp add: tbs_enqueue_def qdisc_drop_def)
  have 3: "\<exists>sch'. tbs_enqueue clk nskb sch = Some (NET_XMIT_SUCCESS, sch') \<and>
             set (store sch') = insert nskb (set (store sch))"
    if "\<not> ?late"
    using v d that
    by (auto simp: tbs_enqueue_def tbs_enqueue_timesortedlist_def Let_def reset_watchdog_sorted
        qdisc_qstats_backlog_inc_def store_def set_tree_rb_link split: option.splits)
  have 1: "map_option fst (tbs_enqueue clk nskb sch) =
      Some (if ?late then NET_XMIT_DROP else NET_XMIT_SUCCESS)"
    using 2 3 by (cases ?late) auto
  have 4: "map_option fst (tbs_enqueue clk nskb sch) =
      Some (if ktime_before (tstamp nskb) (q_last sch) then NET_XMIT_DROP else NET_XMIT_SUCCESS)"
    if "tstamp nskb = clk f"
    using 1 that by (simp add: ktime_before_def)
  have 5: "map_option fst (tbs_enqueue clk nskb sch) =
      Some (if ktime_before (tstamp nskb) (clk f) then NET_XMIT_DROP else NET_XMIT_SUCCESS)"
    if "tstamp nskb = q_last sch"
    using 1 that by (simp add: ktime_before_def)
  from 1 2 3 4 5 show ?thesis by blast
qed

theorem admit_temporal_checks_witness:
  "sorted_mode two_admitted_one_released \<and>
   q_get_time two_admitted_one_released = Some Ktime_get \<and>
   sk (packet 3 100 False) = Some (txtime_sock False) \<and>
   sk_sock_txtime (txtime_sock False) \<and>
   sk_clockid (txtime_sock False) = q_clockid two_admitted_one_released \<and>
   sk_txtime_flags (txtime_sock False) AND SK_TXTIME_DEADLINE_MASK =
     of_bool (q_deadline_mode two_admitted_one_released) \<and>
   q_last two_admitted_one_released = 100 \<and>
   tstamp (packet 3 100 False) = q_last two_admitted_one_released \<and>
   \<not> ktime_before (tstamp (packet 3 100 False)) (clock_at 95 Ktime_get) \<and>
   map_option fst (tbs_enqueue (clock_at 95) (packet 3 100 False) two_admitted_one_released) =
     Some NET_XMIT_SUCCESS"
proof -
  have h1: "sorted_mode two_admitted_one_released" by code_simp
  have h2: "q_get_time two_admitted_one_released = Some Ktime_get" by code_simp
  have h3: "sk (packet 3 100 False) = Some (txtime_sock False)" by code_simp
  have h4: "sk_sock_txtime (txtime_sock False)" by code_simp
  have h5: "sk_clockid (txtime_sock False) = q_clockid two_admitted_one_released" by code_simp
  have h6: "sk_txtime_flags (txtime_sock False) AND SK_TXTIME_DEADLINE_MASK =
     of_bool (q_deadline_mode two_admitted_one_released)" by code_simp
  have l: "q_last two_admitted_one_released = 100" by code_simp
  have e: "tstamp (packet 3 100 False) = q_last two_admitted_one_released" by code_simp
  have n: "\<not> ktime_before (tstamp (packet 3 100 False)) (clock_at 95 Ktime_get)" by code_simp
  from admit_temporal_checks [where clk = "clock_at 95" and f = Ktime_get, OF h1 h2 h3 h4 h5 h6]
  have "tstamp (packet 3 100 False) = q_last two_admitted_one_released \<longrightarrow>
     map_option fst (tbs_enqueue (clock_at 95) (packet 3 100 False) two_admitted_one_released) =
       Some (if ktime_before (tstamp (packet 3 100 False)) (clock_at 95 Ktime_get)
             then NET_XMIT_DROP else NET_XMIT_SUCCESS)"
    by (elim conjE)
  with e n
  have r: "map_option fst
      (tbs_enqueue (clock_at 95) (packet 3 100 False) two_admitted_one_released) =
     Some NET_XMIT_SUCCESS"
    by simp
  show ?thesis by (intro conjI h1 h2 h3 h4 h5 h6 l e n r)
qed

text \<open>
  C8 as the spec states it fails in its last clause: after a release at 100, a packet
  due at 95 that is admitted at 95 has a txtime equal to the clock reading and is
  dropped, and a packet due at 100 that is admitted at 150 has a txtime equal to the
  time of the last release and is dropped.
\<close>

theorem equal_txtime_still_dropped:
  "q_last two_admitted_one_released = 100 \<and>
   sk (packet 3 95 False) = Some (txtime_sock False) \<and>
   sk (packet 3 100 False) = Some (txtime_sock False) \<and>
   sk_sock_txtime (txtime_sock False) \<and>
   sk_clockid (txtime_sock False) = q_clockid two_admitted_one_released \<and>
   sk_txtime_flags (txtime_sock False) AND SK_TXTIME_DEADLINE_MASK =
     of_bool (q_deadline_mode two_admitted_one_released) \<and>
   tstamp (packet 3 95 False) = clock_at 95 Ktime_get \<and>
   map_option fst (tbs_enqueue (clock_at 95) (packet 3 95 False) two_admitted_one_released) =
     Some NET_XMIT_DROP \<and>
   tstamp (packet 3 100 False) = q_last two_admitted_one_released \<and>
   map_option fst (tbs_enqueue (clock_at 150) (packet 3 100 False) two_admitted_one_released) =
     Some NET_XMIT_DROP"
  by code_simp

section \<open>Configuration without sorting\<close>

text \<open>
  C10, as the code has it. With the sorting flag off, a supported clock and a delta that
  is not negative, \<^verbatim>\<open>tbs_init\<close> succeeds and leaves the three dispatch pointers of a
  new qdisc unset. Every later poll and peek goes through an unset pointer, and so does
  the admission of every packet that passes \<^verbatim>\<open>is_packet_valid\<close>; a packet that fails
  the validation is dropped before the pointer is reached.
\<close>

theorem init_without_sorting_leaves_dispatch_unset:
  assumes "\<not> SORTING_IS_ON qopt" and "validate_input_params qopt = Inr ()"
    and "select_clock (qopt_clockid qopt) = Some f"
    and "q_enqueue sch = None" and "q_dequeue sch = None" and "q_peek sch = None"
  shows "\<exists>sch'. tbs_init (Parms qopt) txq sch = (Inr (), sch') \<and>
           q_enqueue sch' = None \<and> q_dequeue sch' = None \<and> q_peek sch' = None \<and>
           tbs_dequeue clk sch' = None \<and> tbs_peek sch' = None \<and>
           (\<forall>nskb. tbs_enqueue clk nskb sch' =
              (if is_packet_valid clk sch' nskb = Some True then None
               else Some (qdisc_drop nskb sch')))"
proof -
  define sch' where "sch' = snd (tbs_init (Parms qopt) txq sch)"
  from assms have i: "tbs_init (Parms qopt) txq sch = (Inr (), sch')"
    and u: "q_enqueue sch' = None" "q_dequeue sch' = None" "q_peek sch' = None"
    and g: "q_get_time sch' = Some f"
    by (simp_all add: sch'_def tbs_init_def Let_def setup_queueing_mode_def)
  from g have "is_packet_valid clk sch' nskb \<noteq> None" for nskb
    by (auto simp: is_packet_valid_def Let_def split: option.splits)
  with u have "tbs_enqueue clk nskb sch' =
      (if is_packet_valid clk sch' nskb = Some True then None else Some (qdisc_drop nskb sch'))"
    for nskb
    by (auto simp: tbs_enqueue_def split: option.splits bool.splits)
  with i u show ?thesis
    by (simp add: tbs_dequeue_def tbs_peek_def)
qed

theorem init_without_sorting_leaves_dispatch_unset_witness:
  "\<not> SORTING_IS_ON qopt_unsorted \<and> validate_input_params qopt_unsorted = Inr () \<and>
   select_clock (qopt_clockid qopt_unsorted) = Some Ktime_get \<and>
   q_enqueue qdisc_alloc = None \<and> q_dequeue qdisc_alloc = None \<and> q_peek qdisc_alloc = None \<and>
   tbs_init (Parms qopt_unsorted) 0 qdisc_alloc = (Inr (), configured qopt_unsorted) \<and>
   tbs_dequeue (clock_at 0) (configured qopt_unsorted) = None \<and>
   tbs_peek (configured qopt_unsorted) = None \<and>
   is_packet_valid (clock_at 0) (configured qopt_unsorted) (packet 1 100 False) = Some True \<and>
   tbs_enqueue (clock_at 0) (packet 1 100 False) (configured qopt_unsorted) = None"
proof -
  have h1: "\<not> SORTING_IS_ON qopt_unsorted" by code_simp
  have h2: "validate_input_params qopt_unsorted = Inr ()" by code_simp
  have h3: "select_clock (qopt_clockid qopt_unsorted) = Some Ktime_get" by code_simp
  have h4: "q_enqueue qdisc_alloc = None" by code_simp
  have h5: "q_dequeue qdisc_alloc = None" by code_simp
  have h6: "q_peek qdisc_alloc = None" by code_simp
  have v: "is_packet_valid (clock_at 0) (configured qopt_unsorted) (packet 1 100 False) = Some True"
    by code_simp
  from init_without_sorting_leaves_dispatch_unset
         [OF h1 h2 h3 h4 h5 h6, of 0 "clock_at 0"]
  obtain sch' where i: "tbs_init (Parms qopt_unsorted) 0 qdisc_alloc = (Inr (), sch')"
    and d: "tbs_dequeue (clock_at 0) sch' = None" and p: "tbs_peek sch' = None"
    and e: "\<forall>nskb. tbs_enqueue (clock_at 0) nskb sch' =
              (if is_packet_valid (clock_at 0) sch' nskb = Some True then None
               else Some (qdisc_drop nskb sch'))"
    by blast
  from i have c: "sch' = configured qopt_unsorted" by (simp add: configured_def)
  from e v have "tbs_enqueue (clock_at 0) (packet 1 100 False) (configured qopt_unsorted) = None"
    unfolding c by simp
  with h1 h2 h3 h4 h5 h6 v i d p show ?thesis unfolding c by blast
qed

text \<open>
  C10 as the spec states it fails for the admission: on the qdisc configured without
  sorting, a packet without a socket is counted as dropped and \<^verbatim>\<open>NET_XMIT_DROP\<close> is
  returned; the unset pointer is not reached.
\<close>

theorem unsorted_admit_of_invalid_packet_is_dropped:
  "\<not> SORTING_IS_ON qopt_unsorted \<and>
   tbs_init (Parms qopt_unsorted) 0 qdisc_alloc = (Inr (), configured qopt_unsorted) \<and>
   q_enqueue (configured qopt_unsorted) = None \<and>
   tbs_enqueue (clock_at 0) ((packet 1 100 False)\<lparr>sk := None\<rparr>) (configured qopt_unsorted) =
     Some (NET_XMIT_DROP, (configured qopt_unsorted)\<lparr>drops := 1\<rparr>)"
  by code_simp

section \<open>What one operation does to the store and to the time of the last release\<close>


lemma reset_watchdog_frame:
  assumes "reset_watchdog x = Some s"
  shows "q_head s = q_head x \<and> q_last s = q_last x \<and> q_enqueue s = q_enqueue x \<and>
    q_dequeue s = q_dequeue x \<and> q_peek s = q_peek x \<and> q_get_time s = q_get_time x \<and>
    q_deadline_mode s = q_deadline_mode x \<and> q_delta s = q_delta x \<and>
    q_clockid s = q_clockid x"
  using assms
  by (auto simp: reset_watchdog_def Let_def split: option.splits)

lemma rb_first_store:
  "rb_first (q_head sch) = Some x \<Longrightarrow> store sch = x # inorder (rb_erase_first (q_head sch))"
  by (cases "inorder (q_head sch)") (simp_all add: rb_first_inorder store_def inorder_rb_erase_first)

lemma tbs_dequeue_Some_cases:
  assumes "tbs_dequeue clk sch = Some (r, sch')"
  shows "(r = None \<and> store sch' = store sch \<and> q_last sch' = q_last sch) \<or>
         (\<exists>x. r = None \<and> store sch = x # store sch' \<and> q_last sch' = q_last sch) \<or>
         (\<exists>x p. r = Some p \<and> p\<lparr>tstamp := tstamp x\<rparr> = x \<and> store sch = x # store sch' \<and>
                 q_last sch' = tstamp x)"
proof -
  from assms have deq: "tbs_dequeue_timesortedlist clk sch = Some (r, sch')"
    by (simp add: tbs_dequeue_def split: option.splits dequeue_fn.splits)
  show ?thesis
  proof (cases "tbs_peek sch")
    case None
    with deq show ?thesis by (simp add: tbs_dequeue_timesortedlist_def)
  next
    case (Some hd)
    show ?thesis
    proof (cases hd)
      case None
      with Some deq show ?thesis by (simp add: tbs_dequeue_timesortedlist_def)
    next
      case (Some skb)
      with \<open>tbs_peek sch = Some hd\<close> have pk: "tbs_peek sch = Some (Some skb)" by simp
      from tbs_peek_SomeD[OF pk] have "rb_first (q_head sch) = Some skb" by simp
      then have st: "store sch = skb # inorder (rb_erase_first (q_head sch))"
        by (rule rb_first_store)
      from deq pk st show ?thesis
        by (auto simp: tbs_dequeue_timesortedlist_def Let_def store_def timesortedlist_erase_frame
            split: option.splits if_splits dest!: reset_watchdog_frame)
    qed
  qed
qed

lemma tbs_enqueue_Some_cases:
  assumes "tbs_enqueue clk nskb sch = Some (r, sch')"
  shows "(r = NET_XMIT_DROP \<and> q_head sch' = q_head sch \<and> q_last sch' = q_last sch) \<or>
         (r = NET_XMIT_SUCCESS \<and> q_head sch' = rb_link nskb (q_head sch) \<and>
          q_last sch' = q_last sch \<and> \<not> ktime_before (tstamp nskb) (q_last sch))"
  using assms
  by (auto simp: tbs_enqueue_def tbs_enqueue_timesortedlist_def Let_def store_def qdisc_drop_def
      is_packet_valid_def qdisc_qstats_backlog_inc_def
      split: option.splits if_splits bool.splits enqueue_fn.splits dest!: reset_watchdog_frame)

lemma step_inv:
  assumes "tbs_inv sch" and "step x sch = Some (r, sch')"
  shows "tbs_inv sch' \<and> sint (q_last sch) \<le> sint (q_last sch')"
proof (cases x)
  case (Admit clk nskb)
  with assms(2) obtain r' where "tbs_enqueue clk nskb sch = Some (r', sch')"
    by auto
  from tbs_enqueue_Some_cases[OF this] assms(1) show ?thesis
    by (auto simp: tbs_inv_def store_def time_sorted_rb_link set_tree_rb_link
        ktime_before_def word_sless_alt)
next
  case (Poll clk)
  with assms(2) obtain r' where "tbs_dequeue clk sch = Some (r', sch')"
    by auto
  from tbs_dequeue_Some_cases[OF this] assms(1) show ?thesis
    by (auto simp: tbs_inv_def time_sorted_Cons)
qed

lemma tbs_init_inv:
  assumes "tbs_init opt txq qdisc_alloc = (Inr (), sch0)"
  shows "tbs_inv sch0 \<and> q_get_time sch0 \<noteq> None \<and> (q_sorting sch0 \<longrightarrow> sorted_mode sch0)"
  using assms
  by (auto simp: tbs_init_def Let_def setup_queueing_mode_def qdisc_alloc_def tbs_inv_def
      store_def time_sorted_def sorted_mode_def split: nlattr.splits sum.splits option.splits if_splits)

lemma step_total:
  assumes "sorted_mode sch" and "q_get_time sch = Some f"
  shows "\<exists>r sch'. step x sch = Some (r, sch') \<and> sorted_mode sch' \<and> q_get_time sch' = Some f"
proof -
  from assms(1) have d: "q_enqueue sch = Some Tbs_enqueue_timesortedlist"
    "q_dequeue sch = Some Tbs_dequeue_timesortedlist" "q_peek sch = Some Tbs_peek_timesortedlist"
    by (simp_all add: sorted_mode_def)
  show ?thesis
  proof (cases x)
    case (Admit clk nskb)
    with d assms(2) show ?thesis
      by (auto simp: tbs_enqueue_def tbs_enqueue_timesortedlist_def Let_def qdisc_drop_def
          is_packet_valid_def qdisc_qstats_backlog_inc_def reset_watchdog_sorted sorted_mode_def
          split: option.splits if_splits bool.splits)
  next
    case (Poll clk)
    with d assms(2) show ?thesis
      by (auto simp: tbs_dequeue_def tbs_dequeue_timesortedlist_def Let_def tbs_peek_def
          tbs_peek_timesortedlist_def reset_watchdog_sorted sorted_mode_def
          timesortedlist_erase_frame
          split: option.splits if_splits)
  qed
qed

lemma run_total:
  "sorted_mode sch \<Longrightarrow> q_get_time sch = Some f \<Longrightarrow>
   \<exists>rs sch'. run ops sch = Some (rs, sch') \<and> sorted_mode sch' \<and> q_get_time sch' = Some f"
proof (induction ops arbitrary: sch)
  case Nil
  then show ?case by simp
next
  case (Cons x ops)
  from step_total[OF Cons.prems] obtain r s where st: "step x sch = Some (r, s)"
    and m: "sorted_mode s" and g: "q_get_time s = Some f"
    by blast
  from Cons.IH[OF m g] st show ?case by auto
qed

lemma run_inv:
  "tbs_inv sch \<Longrightarrow> run ops sch = Some (rs, sch') \<Longrightarrow>
   tbs_inv sch' \<and> sint (q_last sch) \<le> sint (q_last sch')"
proof (induction ops arbitrary: sch rs)
  case Nil
  then show ?case by simp
next
  case (Cons x ops)
  from Cons.prems(2) obtain r s rs' where st: "step x sch = Some (r, s)"
    and rn: "run ops s = Some (rs', sch')"
    by (auto split: option.splits)
  from step_inv[OF Cons.prems(1) st] Cons.IH[OF _ rn] show ?case by auto
qed



text \<open>
  C9. On a new qdisc that \<^verbatim>\<open>tbs_init\<close> has configured, the time of the last release
  starts at 0 and never goes down along a sequence of admissions and polls: between any
  two points of a run it is the same or later, in the signed order of \<^verbatim>\<open>ktime_t\<close>.
  With the sorting flag on, every such sequence runs to its end.
\<close>

theorem last_released_time_monotone:
  assumes "tbs_init opt txq qdisc_alloc = (Inr (), sch0)"
  shows "q_last sch0 = 0 \<and>
         (\<forall>rs1 s1 rs2 s2.
            run ops1 sch0 = Some (rs1, s1) \<and> run ops2 s1 = Some (rs2, s2) \<longrightarrow>
            q_last sch0 \<le>s q_last s1 \<and> q_last s1 \<le>s q_last s2) \<and>
         (q_sorting sch0 \<longrightarrow>
            (\<exists>rs1 s1 rs2 s2. run ops1 sch0 = Some (rs1, s1) \<and> run ops2 s1 = Some (rs2, s2)))"
proof -
  from tbs_init_inv[OF assms] have inv0: "tbs_inv sch0" and g: "q_get_time sch0 \<noteq> None"
    and m: "q_sorting sch0 \<longrightarrow> sorted_mode sch0"
    by simp_all
  from assms have l0: "q_last sch0 = 0"
    by (auto simp: tbs_init_def Let_def setup_queueing_mode_def qdisc_alloc_def
        split: nlattr.splits sum.splits option.splits if_splits)
  have mono: "q_last sch0 \<le>s q_last s1 \<and> q_last s1 \<le>s q_last s2"
    if r1: "run ops1 sch0 = Some (rs1, s1)" and r2: "run ops2 s1 = Some (rs2, s2)"
    for rs1 s1 rs2 s2
  proof -
    from run_inv[OF inv0 r1] have "tbs_inv s1" and "sint (q_last sch0) \<le> sint (q_last s1)"
      by simp_all
    with run_inv[OF _ r2] show ?thesis by (simp add: word_sle_eq)
  qed
  have total: "\<exists>rs1 s1 rs2 s2. run ops1 sch0 = Some (rs1, s1) \<and> run ops2 s1 = Some (rs2, s2)"
    if "q_sorting sch0"
  proof -
    from that m g obtain f where sm: "sorted_mode sch0" and gf: "q_get_time sch0 = Some f"
      by auto
    from run_total[OF sm gf, of ops1] obtain rs1 s1 where r1: "run ops1 sch0 = Some (rs1, s1)"
      and sm1: "sorted_mode s1" and g1: "q_get_time s1 = Some f"
      by blast
    from run_total[OF sm1 g1, of ops2] r1 show ?thesis by blast
  qed
  from mono total l0 show ?thesis by blast
qed

theorem last_released_time_monotone_witness:
  "tbs_init (Parms qopt_windowed) 0 qdisc_alloc = (Inr (), configured qopt_windowed) \<and>
   run [Admit (clock_at 0) (packet 1 100 False), Admit (clock_at 0) (packet 2 200 False),
        Poll (clock_at 95)] (configured qopt_windowed) =
     Some ([Admitted NET_XMIT_SUCCESS, Admitted NET_XMIT_SUCCESS,
            Polled (Some (packet 1 100 False))], two_admitted_one_released) \<and>
   run [Poll (clock_at 195)] two_admitted_one_released =
     Some ([Polled (Some (packet 2 200 False))],
           after [Poll (clock_at 195)] two_admitted_one_released) \<and>
   q_last two_admitted_one_released = 100 \<and>
   q_last (after [Poll (clock_at 195)] two_admitted_one_released) = 200 \<and>
   q_last two_admitted_one_released \<le>s
     q_last (after [Poll (clock_at 195)] two_admitted_one_released)"
proof -
  have h0: "tbs_init (Parms qopt_windowed) 0 qdisc_alloc = (Inr (), configured qopt_windowed)"
    by code_simp
  have h1: "run [Admit (clock_at 0) (packet 1 100 False), Admit (clock_at 0) (packet 2 200 False),
        Poll (clock_at 95)] (configured qopt_windowed) =
     Some ([Admitted NET_XMIT_SUCCESS, Admitted NET_XMIT_SUCCESS,
            Polled (Some (packet 1 100 False))], two_admitted_one_released)"
    by code_simp
  have h2: "run [Poll (clock_at 195)] two_admitted_one_released =
     Some ([Polled (Some (packet 2 200 False))],
           after [Poll (clock_at 195)] two_admitted_one_released)"
    by code_simp
  have v1: "q_last two_admitted_one_released = 100" by code_simp
  have v2: "q_last (after [Poll (clock_at 195)] two_admitted_one_released) = 200" by code_simp
  from last_released_time_monotone [OF h0] h1 h2
  have "q_last two_admitted_one_released \<le>s
     q_last (after [Poll (clock_at 195)] two_admitted_one_released)"
    by blast
  with h0 h1 h2 v1 v2 show ?thesis by blast
qed

section \<open>The scheduled wake\<close>










section \<open>Packets with the same txtime\<close>

lemma tbs_enqueue_valid:
  assumes "sorted_mode sch" and "is_packet_valid clk sch nskb = Some True"
  shows "\<exists>sch'. tbs_enqueue clk nskb sch = Some (NET_XMIT_SUCCESS, sch') \<and>
           q_head sch' = rb_link nskb (q_head sch) \<and> sorted_mode sch' \<and>
           q_get_time sch' = q_get_time sch \<and> q_last sch' = q_last sch \<and>
           q_clockid sch' = q_clockid sch \<and> q_deadline_mode sch' = q_deadline_mode sch"
  using assms
  by (auto simp: tbs_enqueue_def tbs_enqueue_timesortedlist_def Let_def sorted_mode_def
      qdisc_qstats_backlog_inc_def reset_watchdog_sorted split: option.splits)

lemma occurs_before_append:
  "occurs_before x y (us @ ws) \<longleftrightarrow>
     occurs_before x y us \<or> occurs_before x y ws \<or> (x \<in> set us \<and> y \<in> set ws)"
  by (induction us) auto

lemma occurs_before_set: "occurs_before x y zs \<Longrightarrow> x \<in> set zs \<and> y \<in> set zs"
  by (induction zs) auto

lemma time_sorted_partition:
  "time_sorted xs \<Longrightarrow>
   filter (\<lambda>y. sint (tstamp y) < k) xs @ filter (\<lambda>y. k \<le> sint (tstamp y)) xs = xs"
proof (induction xs)
  case Nil
  then show ?case by simp
next
  case (Cons x xs)
  then have ts: "time_sorted xs" and le: "\<forall>y \<in> set xs. sint (tstamp x) \<le> sint (tstamp y)"
    by (simp_all add: time_sorted_Cons)
  show ?case
  proof (cases "sint (tstamp x) < k")
    case True
    with Cons.IH[OF ts] show ?thesis by simp
  next
    case False
    with le have "\<forall>y \<in> set xs. k \<le> sint (tstamp y)" by fastforce
    then have "filter (\<lambda>y. sint (tstamp y) < k) xs = []"
      and "filter (\<lambda>y. k \<le> sint (tstamp y)) xs = xs"
      by (auto simp: filter_empty_conv intro!: filter_True)
    with False show ?thesis by simp
  qed
qed

lemma store_after_link:
  assumes "tbs_inv s" and "q_head s1 = rb_link p (q_head s)"
  shows "\<exists>us vs. store s = us @ vs \<and> store s1 = us @ p # vs \<and>
           us = filter (\<lambda>y. ktime_before (tstamp y) (tstamp p)) (store s) \<and>
           vs = filter (\<lambda>y. \<not> ktime_before (tstamp y) (tstamp p)) (store s)"
proof -
  from assms(1) have ts: "time_sorted (inorder (q_head s))"
    by (simp add: tbs_inv_def store_def)
  from inorder_rb_link[OF ts, of p] time_sorted_partition[OF ts, of "sint (tstamp p)"] assms(2)
  show ?thesis
    by (simp add: store_def ktime_before_def word_sless_alt not_less)
qed

lemma run_keeps_order:
  assumes "sorted_mode s" and "q_get_time s = Some f" and "tbs_inv s"
    and "\<not> occurs_before ia ib (map skb_id (store s))"
    and "ia \<notin> skb_id ` set (admitted ops)" and "ib \<notin> skb_id ` set (admitted ops)"
  shows "\<exists>rs s'. run ops s = Some (rs, s') \<and>
           \<not> occurs_before ia ib (map skb_id (released rs @ store s')) \<and>
           set (map skb_id (released rs @ store s')) \<subseteq>
             set (map skb_id (store s)) \<union> skb_id ` set (admitted ops)"
  using assms
proof (induction ops arbitrary: s)
  case Nil
  then show ?case by simp
next
  case (Cons x ops)
  from step_total[OF Cons.prems(1,2), of x] obtain r s1 where
    st: "step x s = Some (r, s1)" and m1: "sorted_mode s1" and g1: "q_get_time s1 = Some f"
    by blast
  from step_inv[OF Cons.prems(3) st] have i1: "tbs_inv s1" by simp
  show ?case
  proof (cases x)
    case (Admit clk p)
    with Cons.prems(5,6) have na: "ia \<notin> skb_id ` set (admitted ops)"
      and nb: "ib \<notin> skb_id ` set (admitted ops)" and pa: "skb_id p \<noteq> ia" and pb: "skb_id p \<noteq> ib"
      by auto
    from st Admit obtain r' where r: "r = Admitted r'"
      and eq: "tbs_enqueue clk p s = Some (r', s1)"
      by auto
    have ord1: "\<not> occurs_before ia ib (map skb_id (store s1))"
      and sub1: "set (map skb_id (store s1)) \<subseteq> insert (skb_id p) (set (map skb_id (store s)))"
    proof -
      from tbs_enqueue_Some_cases[OF eq]
      consider "q_head s1 = q_head s" | "q_head s1 = rb_link p (q_head s)"
        by blast
      then have "\<not> occurs_before ia ib (map skb_id (store s1)) \<and>
          set (map skb_id (store s1)) \<subseteq> insert (skb_id p) (set (map skb_id (store s)))"
      proof cases
        case 1
        with Cons.prems(4) show ?thesis by (auto simp: store_def)
      next
        case 2
        from store_after_link[OF Cons.prems(3) 2] obtain us vs where
          "store s = us @ vs" and "store s1 = us @ p # vs"
          by blast
        with Cons.prems(4) pa pb show ?thesis
          by (auto simp: occurs_before_append)
      qed
      then show "\<not> occurs_before ia ib (map skb_id (store s1))"
        and "set (map skb_id (store s1)) \<subseteq> insert (skb_id p) (set (map skb_id (store s)))"
        by simp_all
    qed
    from Cons.IH[OF m1 g1 i1 ord1 na nb] obtain rs s' where
      rn: "run ops s1 = Some (rs, s')"
      and o: "\<not> occurs_before ia ib (map skb_id (released rs @ store s'))"
      and sb: "set (map skb_id (released rs @ store s')) \<subseteq>
             set (map skb_id (store s1)) \<union> skb_id ` set (admitted ops)"
      by blast
    from st rn have "run (x # ops) s = Some (r # rs, s')" by simp
    moreover from o have "\<not> occurs_before ia ib (map skb_id (released (r # rs) @ store s'))"
      by (simp add: r)
    moreover have "set (map skb_id (released (r # rs) @ store s')) \<subseteq>
        set (map skb_id (store s)) \<union> skb_id ` set (admitted (x # ops))"
    proof -
      from sb sub1 have "set (map skb_id (released rs @ store s')) \<subseteq>
          insert (skb_id p) (set (map skb_id (store s)) \<union> skb_id ` set (admitted ops))"
        by blast
      then show ?thesis unfolding r Admit by simp
    qed
    ultimately show ?thesis by blast
  next
    case (Poll clk)
    with Cons.prems(5,6) have na: "ia \<notin> skb_id ` set (admitted ops)"
      and nb: "ib \<notin> skb_id ` set (admitted ops)"
      by auto
    from st Poll obtain r' where r: "r = Polled r'"
      and dq: "tbs_dequeue clk s = Some (r', s1)"
      by auto
    from tbs_dequeue_Some_cases[OF dq]
    consider (keep) "r' = None" "store s1 = store s"
      | (expired) y where "r' = None" "store s = y # store s1"
      | (release) y p where "r' = Some p" "skb_id p = skb_id y" "store s = y # store s1"
      by (metis sk_buff.select_convs(1) sk_buff.surjective sk_buff.update_convs(2))
    then show ?thesis
    proof cases
      case keep
      with Cons.prems(4) have ord1: "\<not> occurs_before ia ib (map skb_id (store s1))" by simp
      from Cons.IH[OF m1 g1 i1 ord1 na nb] obtain rs s' where
        rn: "run ops s1 = Some (rs, s')"
        and o: "\<not> occurs_before ia ib (map skb_id (released rs @ store s'))"
        and sb: "set (map skb_id (released rs @ store s')) \<subseteq>
             set (map skb_id (store s1)) \<union> skb_id ` set (admitted ops)"
        by blast
      from st rn have "run (x # ops) s = Some (r # rs, s')" by simp
      with o sb keep show ?thesis unfolding r Poll by auto
    next
      case expired
      with Cons.prems(4) have ord1: "\<not> occurs_before ia ib (map skb_id (store s1))" by simp
      from Cons.IH[OF m1 g1 i1 ord1 na nb] obtain rs s' where
        rn: "run ops s1 = Some (rs, s')"
        and o: "\<not> occurs_before ia ib (map skb_id (released rs @ store s'))"
        and sb: "set (map skb_id (released rs @ store s')) \<subseteq>
             set (map skb_id (store s1)) \<union> skb_id ` set (admitted ops)"
        by blast
      from st rn have "run (x # ops) s = Some (r # rs, s')" by simp
      with o sb expired show ?thesis unfolding r Poll by auto
    next
      case release
      with Cons.prems(4) have ord1: "\<not> occurs_before ia ib (map skb_id (store s1))"
        and hd: "skb_id y = ia \<longrightarrow> ib \<notin> set (map skb_id (store s1))"
        by simp_all
      from Cons.IH[OF m1 g1 i1 ord1 na nb] obtain rs s' where
        rn: "run ops s1 = Some (rs, s')"
        and o: "\<not> occurs_before ia ib (map skb_id (released rs @ store s'))"
        and sb: "set (map skb_id (released rs @ store s')) \<subseteq>
             set (map skb_id (store s1)) \<union> skb_id ` set (admitted ops)"
        by blast
      from hd sb nb have "skb_id y = ia \<longrightarrow> ib \<notin> set (map skb_id (released rs @ store s'))"
        by auto
      with o release(1,2)
      have "\<not> occurs_before ia ib (map skb_id (released (r # rs) @ store s'))"
        unfolding r by simp
      moreover from st rn have "run (x # ops) s = Some (r # rs, s')" by simp
      moreover from sb release have "set (map skb_id (released (r # rs) @ store s')) \<subseteq>
          set (map skb_id (store s)) \<union> skb_id ` set (admitted (x # ops))"
        unfolding r Poll by auto
      ultimately show ?thesis by blast
    qed
  qed
qed

lemma tie_not_in_front:
  assumes "distinct (map skb_id xs)" and "a \<in> set xs" and "tstamp b = tstamp a"
  shows "skb_id a \<notin> skb_id ` set (filter (\<lambda>y. ktime_before (tstamp y) (tstamp b)) xs)"
proof
  assume "skb_id a \<in> skb_id ` set (filter (\<lambda>y. ktime_before (tstamp y) (tstamp b)) xs)"
  then obtain y where y: "y \<in> set xs" "ktime_before (tstamp y) (tstamp b)" "skb_id y = skb_id a"
    by auto
  from assms(1) have "inj_on skb_id (set xs)" by (simp add: distinct_map)
  with y(1,3) assms(2) have "y = a" by (auto dest: inj_onD)
  with y(2) assms(3) show False by (simp add: ktime_before_def)
qed

text \<open>
  C2, as the code has it. A valid packet is accepted, and so is a second valid packet,
  whatever admissions and polls come in between; the second is placed behind the packets
  with an earlier txtime and in front of all others. When the two have the same txtime
  and the first is still held at that moment, the second so stands in front of the
  first. Whatever admissions of other buffers and polls follow, the first then never
  comes before the second in the order in which packets are released and, after them,
  held: of the two the one admitted last is released first. The buffers are told apart
  by \<open>skb_id\<close>.
\<close>

theorem equal_txtime_newest_first:
  assumes "sorted_mode sch0" and "q_get_time sch0 = Some f" and "tbs_inv sch0"
    and "is_packet_valid clk_a sch0 a = Some True"
  shows "\<exists>rs sch.
           run (Admit clk_a a # mid) sch0 = Some (Admitted NET_XMIT_SUCCESS # rs, sch) \<and>
           (is_packet_valid clk_b sch b = Some True \<longrightarrow>
            (\<exists>sch1. tbs_enqueue clk_b b sch = Some (NET_XMIT_SUCCESS, sch1) \<and>
               store sch1 =
                 filter (\<lambda>y. ktime_before (tstamp y) (tstamp b)) (store sch) @ b #
                 filter (\<lambda>y. \<not> ktime_before (tstamp y) (tstamp b)) (store sch) \<and>
               (a \<in> set (store sch) \<and> tstamp b = tstamp a \<longrightarrow>
                  a \<in> set (filter (\<lambda>y. \<not> ktime_before (tstamp y) (tstamp b)) (store sch))) \<and>
               (a \<in> set (store sch) \<and> tstamp b = tstamp a \<and>
                distinct (map skb_id (store sch)) \<and> skb_id b \<notin> skb_id ` set (store sch) \<longrightarrow>
                  (\<forall>ops. skb_id a \<notin> skb_id ` set (admitted ops) \<and>
                          skb_id b \<notin> skb_id ` set (admitted ops) \<longrightarrow>
                     (\<exists>rs' sch2. run ops sch1 = Some (rs', sch2) \<and>
                        \<not> occurs_before (skb_id a) (skb_id b)
                            (map skb_id (released rs' @ store sch2)))))))"
proof -
  from tbs_enqueue_valid[OF assms(1,4)] obtain s1 where
    e1: "tbs_enqueue clk_a a sch0 = Some (NET_XMIT_SUCCESS, s1)"
    and m1: "sorted_mode s1" and g1: "q_get_time s1 = q_get_time sch0"
    by blast
  from e1 have st1: "step (Admit clk_a a) sch0 = Some (Admitted NET_XMIT_SUCCESS, s1)" by simp
  from step_inv[OF assms(3) st1] have i1: "tbs_inv s1" by simp
  from g1 assms(2) have g1': "q_get_time s1 = Some f" by simp
  from run_total[OF m1 g1', of mid] obtain rs sch where rn: "run mid s1 = Some (rs, sch)"
    and m: "sorted_mode sch" and g: "q_get_time sch = Some f"
    by blast
  from run_inv[OF i1 rn] have i: "tbs_inv sch" by simp
  from st1 rn have r0: "run (Admit clk_a a # mid) sch0 = Some (Admitted NET_XMIT_SUCCESS # rs, sch)"
    by simp
  let ?us = "filter (\<lambda>y. ktime_before (tstamp y) (tstamp b)) (store sch)"
  let ?vs = "filter (\<lambda>y. \<not> ktime_before (tstamp y) (tstamp b)) (store sch)"
  have tie: "\<exists>sch1. tbs_enqueue clk_b b sch = Some (NET_XMIT_SUCCESS, sch1) \<and>
       store sch1 = ?us @ b # ?vs \<and>
       (a \<in> set (store sch) \<and> tstamp b = tstamp a \<longrightarrow> a \<in> set ?vs) \<and>
       (a \<in> set (store sch) \<and> tstamp b = tstamp a \<and>
        distinct (map skb_id (store sch)) \<and> skb_id b \<notin> skb_id ` set (store sch) \<longrightarrow>
          (\<forall>ops. skb_id a \<notin> skb_id ` set (admitted ops) \<and>
                  skb_id b \<notin> skb_id ` set (admitted ops) \<longrightarrow>
             (\<exists>rs' sch2. run ops sch1 = Some (rs', sch2) \<and>
                \<not> occurs_before (skb_id a) (skb_id b)
                    (map skb_id (released rs' @ store sch2)))))"
    if vb: "is_packet_valid clk_b sch b = Some True"
  proof -
    from tbs_enqueue_valid[OF m vb] obtain sch1 where
      e2: "tbs_enqueue clk_b b sch = Some (NET_XMIT_SUCCESS, sch1)"
      and h2: "q_head sch1 = rb_link b (q_head sch)"
      and m2: "sorted_mode sch1" and g2: "q_get_time sch1 = q_get_time sch"
      by blast
    from e2 have st2: "step (Admit clk_b b) sch = Some (Admitted NET_XMIT_SUCCESS, sch1)" by simp
    from step_inv[OF i st2] have i2: "tbs_inv sch1" by simp
    from g2 g have g2': "q_get_time sch1 = Some f" by simp
    from store_after_link[OF i h2] have s1: "store sch1 = ?us @ b # ?vs" by auto
    have av: "a \<in> set ?vs" if "a \<in> set (store sch)" and "tstamp b = tstamp a"
      using that by (simp add: ktime_before_def)
    have order: "\<exists>rs' sch2. run ops sch1 = Some (rs', sch2) \<and>
             \<not> occurs_before (skb_id a) (skb_id b) (map skb_id (released rs' @ store sch2))"
      if held: "a \<in> set (store sch)" and eq: "tstamp b = tstamp a"
        and dist: "distinct (map skb_id (store sch))"
        and fresh: "skb_id b \<notin> skb_id ` set (store sch)"
        and na: "skb_id a \<notin> skb_id ` set (admitted ops)"
        and nb: "skb_id b \<notin> skb_id ` set (admitted ops)"
      for ops
    proof -
      from tie_not_in_front[OF dist held eq] have nf: "skb_id a \<notin> skb_id ` set ?us" .
      from fresh held have ne: "skb_id b \<noteq> skb_id a" by auto
      from fresh have fb: "skb_id b \<notin> skb_id ` set ?us" "skb_id b \<notin> skb_id ` set ?vs" by auto
      from nf ne fb have ord: "\<not> occurs_before (skb_id a) (skb_id b) (map skb_id (store sch1))"
        unfolding s1 by (auto simp: occurs_before_append dest: occurs_before_set)
      from run_keeps_order[OF m2 g2' i2 ord na nb] show ?thesis by blast
    qed
    from e2 s1 av order show ?thesis by blast
  qed
  from r0 tie show ?thesis by blast
qed

theorem equal_txtime_newest_first_witness:
  "sorted_mode (configured qopt_windowed) \<and>
   q_get_time (configured qopt_windowed) = Some Ktime_get \<and>
   tbs_inv (configured qopt_windowed) \<and>
   is_packet_valid (clock_at 0) (configured qopt_windowed) (packet 1 100 False) = Some True \<and>
   run (Admit (clock_at 0) (packet 1 100 False) # [Poll (clock_at 50)])
       (configured qopt_windowed) =
     Some (Admitted NET_XMIT_SUCCESS # [Polled None], tie_first_held) \<and>
   packet 1 100 False \<in> set (store tie_first_held) \<and>
   distinct (map skb_id (store tie_first_held)) \<and>
   skb_id (packet 2 100 False) \<notin> skb_id ` set (store tie_first_held) \<and>
   is_packet_valid (clock_at 60) tie_first_held (packet 2 100 False) = Some True \<and>
   tstamp (packet 2 100 False) = tstamp (packet 1 100 False) \<and>
   tbs_enqueue (clock_at 60) (packet 2 100 False) tie_first_held =
     Some (NET_XMIT_SUCCESS, tie_both_held) \<and>
   store tie_both_held = [packet 2 100 False, packet 1 100 False] \<and>
   skb_id (packet 1 100 False) \<notin> skb_id ` set (admitted [Poll (clock_at 95), Poll (clock_at 95)]) \<and>
   skb_id (packet 2 100 False) \<notin> skb_id ` set (admitted [Poll (clock_at 95), Poll (clock_at 95)]) \<and>
   run [Poll (clock_at 95), Poll (clock_at 95)] tie_both_held =
     Some ([Polled (Some (packet 2 100 False)), Polled (Some (packet 1 100 False))],
           after [Poll (clock_at 95), Poll (clock_at 95)] tie_both_held) \<and>
   \<not> occurs_before (skb_id (packet 1 100 False)) (skb_id (packet 2 100 False))
       (map skb_id
          (released [Polled (Some (packet 2 100 False)), Polled (Some (packet 1 100 False))] @
           store (after [Poll (clock_at 95), Poll (clock_at 95)] tie_both_held)))"
proof -
  have h1: "sorted_mode (configured qopt_windowed)" by code_simp
  have h2: "q_get_time (configured qopt_windowed) = Some Ktime_get" by code_simp
  have h3: "tbs_inv (configured qopt_windowed)" by code_simp
  have h4: "is_packet_valid (clock_at 0) (configured qopt_windowed) (packet 1 100 False) =
     Some True" by code_simp
  have r0: "run (Admit (clock_at 0) (packet 1 100 False) # [Poll (clock_at 50)])
       (configured qopt_windowed) =
     Some (Admitted NET_XMIT_SUCCESS # [Polled None], tie_first_held)" by code_simp
  have p1: "packet 1 100 False \<in> set (store tie_first_held)" by code_simp
  have p2: "distinct (map skb_id (store tie_first_held))" by code_simp
  have p3: "skb_id (packet 2 100 False) \<notin> skb_id ` set (store tie_first_held)" by code_simp
  have p4: "is_packet_valid (clock_at 60) tie_first_held (packet 2 100 False) = Some True"
    by code_simp
  have p5: "tstamp (packet 2 100 False) = tstamp (packet 1 100 False)" by code_simp
  have e: "tbs_enqueue (clock_at 60) (packet 2 100 False) tie_first_held =
     Some (NET_XMIT_SUCCESS, tie_both_held)" by code_simp
  have s: "store tie_both_held = [packet 2 100 False, packet 1 100 False]" by code_simp
  have a1: "skb_id (packet 1 100 False) \<notin>
      skb_id ` set (admitted [Poll (clock_at 95), Poll (clock_at 95)])" by simp
  have a2: "skb_id (packet 2 100 False) \<notin>
      skb_id ` set (admitted [Poll (clock_at 95), Poll (clock_at 95)])" by simp
  have r2: "run [Poll (clock_at 95), Poll (clock_at 95)] tie_both_held =
     Some ([Polled (Some (packet 2 100 False)), Polled (Some (packet 1 100 False))],
           after [Poll (clock_at 95), Poll (clock_at 95)] tie_both_held)" by code_simp
  from equal_txtime_newest_first
         [where clk_a = "clock_at 0" and clk_b = "clock_at 60" and f = Ktime_get
            and mid = "[Poll (clock_at 50)]" and b = "packet 2 100 False", OF h1 h2 h3 h4]
  obtain rs sch where
    x: "run (Admit (clock_at 0) (packet 1 100 False) # [Poll (clock_at 50)])
          (configured qopt_windowed) = Some (Admitted NET_XMIT_SUCCESS # rs, sch)"
    and y: "is_packet_valid (clock_at 60) sch (packet 2 100 False) = Some True \<longrightarrow>
            (\<exists>sch1. tbs_enqueue (clock_at 60) (packet 2 100 False) sch =
                 Some (NET_XMIT_SUCCESS, sch1) \<and>
               (packet 1 100 False \<in> set (store sch) \<and>
                tstamp (packet 2 100 False) = tstamp (packet 1 100 False) \<and>
                distinct (map skb_id (store sch)) \<and>
                skb_id (packet 2 100 False) \<notin> skb_id ` set (store sch) \<longrightarrow>
               (\<forall>ops. skb_id (packet 1 100 False) \<notin> skb_id ` set (admitted ops) \<and>
                       skb_id (packet 2 100 False) \<notin> skb_id ` set (admitted ops) \<longrightarrow>
                  (\<exists>rs' sch2. run ops sch1 = Some (rs', sch2) \<and>
                     \<not> occurs_before (skb_id (packet 1 100 False)) (skb_id (packet 2 100 False))
                         (map skb_id (released rs' @ store sch2))))))"
    by blast
  from x r0 have c: "sch = tie_first_held" by simp
  from y p1 p2 p3 p4 p5 obtain sch1 where
    e': "tbs_enqueue (clock_at 60) (packet 2 100 False) tie_first_held =
          Some (NET_XMIT_SUCCESS, sch1)"
    and z: "\<forall>ops. skb_id (packet 1 100 False) \<notin> skb_id ` set (admitted ops) \<and>
                 skb_id (packet 2 100 False) \<notin> skb_id ` set (admitted ops) \<longrightarrow>
              (\<exists>rs' sch2. run ops sch1 = Some (rs', sch2) \<and>
                 \<not> occurs_before (skb_id (packet 1 100 False)) (skb_id (packet 2 100 False))
                     (map skb_id (released rs' @ store sch2)))"
    unfolding c by blast
  from e e' have c1: "sch1 = tie_both_held" by simp
  from z a1 a2 obtain rs' sch2 where
    r2': "run [Poll (clock_at 95), Poll (clock_at 95)] sch1 = Some (rs', sch2)"
    and o: "\<not> occurs_before (skb_id (packet 1 100 False)) (skb_id (packet 2 100 False))
                     (map skb_id (released rs' @ store sch2))"
    by blast
  from r2 r2' have "rs' = [Polled (Some (packet 2 100 False)), Polled (Some (packet 1 100 False))]"
    and "sch2 = after [Poll (clock_at 95), Poll (clock_at 95)] tie_both_held"
    unfolding c1 by simp_all
  with o have o': "\<not> occurs_before (skb_id (packet 1 100 False)) (skb_id (packet 2 100 False))
       (map skb_id
          (released [Polled (Some (packet 2 100 False)), Polled (Some (packet 1 100 False))] @
           store (after [Poll (clock_at 95), Poll (clock_at 95)] tie_both_held)))"
    by simp
  show ?thesis
    by (intro conjI h1 h2 h3 h4 r0 p1 p2 p3 p4 p5 e s a1 a2 r2 o')
qed

text \<open>
  C2 as the spec states it fails: of two packets due at 100, admitted in the order 1, 2,
  the polls at 95 return packet 2 first and packet 1 second.
\<close>

theorem equal_txtime_not_in_insertion_order:
  "map_option fst
     (run [Admit (clock_at 0) (packet 1 100 False), Admit (clock_at 0) (packet 2 100 False),
           Poll (clock_at 95), Poll (clock_at 95)] (configured qopt_windowed)) =
   Some [Admitted NET_XMIT_SUCCESS, Admitted NET_XMIT_SUCCESS,
         Polled (Some (packet 2 100 False)), Polled (Some (packet 1 100 False))]"
  by code_simp

end
